theory Spec2Isabelle
  imports Main "HOL-Library.Word"
begin

section \<open>gpio-watch: the event loop of \<^verbatim>\<open>main.c\<close>\<close>

text \<open>
  The program watches the sysfs value files of a table of GPIO pins with \<^verbatim>\<open>poll\<close> and
  runs a script named after the pin for every event. This theory embeds the two
  functions of \<^verbatim>\<open>main.c\<close> that do this, \<^verbatim>\<open>run_script\<close> and \<^verbatim>\<open>watch_pins\<close>.

  The operating system is an input of the model: what \<^verbatim>\<open>open\<close>, \<^verbatim>\<open>read\<close>, \<^verbatim>\<open>poll\<close>,
  \<^verbatim>\<open>clock_gettime\<close>, \<^verbatim>\<open>fork\<close>, \<^verbatim>\<open>execl\<close> and \<^verbatim>\<open>wait\<close> return is given to the functions,
  and what the program does to the outside (log calls, heap allocation, process
  creation, process exit) is returned as a list of events, in program order.
\<close>

subsection \<open>Data\<close>

text \<open>
  \<^verbatim>\<open>struct pin { int pin; int edge; }\<close> and the edge constants come from \<^verbatim>\<open>gpio.h\<close>;
  \<^verbatim>\<open>watch_pins\<close> only compares the edge with \<^verbatim>\<open>EDGE_SWITCH\<close>.
\<close>

datatype edge = EDGE_NONE | EDGE_RISING | EDGE_FALLING | EDGE_BOTH | EDGE_SWITCH

record pin =
  pin :: int
  edge :: edge

text \<open>
  The globals \<^verbatim>\<open>script_dir\<close> and \<^verbatim>\<open>pins\<close> (\<^verbatim>\<open>num_pins\<close> is the length of the table),
  and the two constants of \<^verbatim>\<open>gpio.h\<close> that size the string buffers. The header is not
  part of the source at hand, so both constants are parameters.
\<close>

record config =
  script_dir :: string
  pins :: "pin list"
  GPIODIRLEN :: nat
  GPIO_BASE :: string

abbreviation num_pins :: "config \<Rightarrow> nat" where
  "num_pins cfg \<equiv> length (pins cfg)"

datatype loglevel = DEBUG | INFO | WARN

datatype fmtarg = D int | S string

text \<open>
  What \<^verbatim>\<open>wait\<close> stores in \<^verbatim>\<open>status\<close>: \<^verbatim>\<open>WIFEXITED\<close> with \<^verbatim>\<open>WEXITSTATUS\<close>,
  \<^verbatim>\<open>WIFSIGNALED\<close> with \<^verbatim>\<open>WTERMSIG\<close>, or neither.
\<close>

datatype wstatus = Exited nat | Signaled nat | Neither

datatype event =
    RUN_SCRIPT int int
  | MALLOC nat
  | FREE
  | LOG loglevel string "fmtarg list"
  | FORK bool
  | EXECL string "string list"
  | CHILD_EXIT int
  | WAIT "wstatus option"
  | UNDEFINED string
  | OPEN string int

subsection \<open>Formatting\<close>

text \<open>\<^verbatim>\<open>%d\<close> of \<^verbatim>\<open>printf\<close>, and \<^verbatim>\<open>snprintf\<close>, which keeps at most \<^verbatim>\<open>size - 1\<close> characters.\<close>

fun digits :: "nat \<Rightarrow> string" where
  "digits n = (if n < 10 then [''0123456789'' ! n]
               else digits (n div 10) @ [''0123456789'' ! (n mod 10)])"

declare digits.simps [simp del]

definition fmt_d :: "int \<Rightarrow> string" where
  "fmt_d i = (if i < 0 then CHR ''-'' # digits (nat (- i)) else digits (nat i))"

definition snprintf :: "nat \<Rightarrow> string \<Rightarrow> string" where
  "snprintf n s = take (n - 1) s"

subsection \<open>\<^verbatim>\<open>run_script\<close>\<close>

text \<open>
  The environment of one call: the answer of \<^verbatim>\<open>is_file\<close> (of \<^verbatim>\<open>fileutil.h\<close>) for a
  path, whether \<^verbatim>\<open>fork\<close> makes a child, whether \<^verbatim>\<open>execl\<close> replaces the child's image,
  how the script then ends, and the content of the local \<^verbatim>\<open>status\<close> when \<^verbatim>\<open>wait\<close> has
  no child to report and leaves it as it was.

  The process has no other child and installs no signal handler, so a \<^verbatim>\<open>wait\<close> with a
  child returns when that child has ended.
\<close>

record script_env =
  fs_is_file :: "string \<Rightarrow> bool"
  fork_ok :: bool
  exec_ok :: bool
  script_end :: wstatus
  status_junk :: wstatus

text \<open>The format string of the first warning holds two double quotes (character 34).\<close>

definition FMT_NO_SCRIPT :: string where
  "FMT_NO_SCRIPT =
     ''pin %d: script '' @ [CHR 0x22] @ ''%s'' @ [CHR 0x22] @ '' does not exist''"

text \<open>
  Lines 63 to 110. \<^verbatim>\<open>RUN_SCRIPT\<close> marks the call, with its two arguments. After
  \<^verbatim>\<open>FORK\<close> come the child's steps (\<^verbatim>\<open>EXECL\<close>, and \<^verbatim>\<open>CHILD_EXIT\<close> when \<^verbatim>\<open>execl\<close>
  returns), then the parent's. \<^verbatim>\<open>value_str\<close> has room for one digit and the terminator.
\<close>

definition run_script :: "config \<Rightarrow> script_env \<Rightarrow> int \<Rightarrow> int \<Rightarrow> event list" where
  "run_script cfg env p v =
     (let script_path_len = length (script_dir cfg) + GPIODIRLEN cfg + 2;
          script_path = snprintf script_path_len (script_dir cfg @ ''/'' @ fmt_d p)
      in [RUN_SCRIPT p v, MALLOC script_path_len] @
         (if \<not> fs_is_file env script_path then
            [LOG WARN FMT_NO_SCRIPT [D p, S script_path]]
          else
            let pin_str = snprintf (GPIODIRLEN cfg) (fmt_d p);
                value_str = fmt_d v
            in if 2 < length value_str + 1 then
                 [UNDEFINED ''sprintf past the end of value_str'']
               else
                 let child = (if fork_ok env then
                                EXECL script_path [script_path, pin_str, value_str] #
                                (if exec_ok env then [] else [CHILD_EXIT 255])
                              else []);
                     status = (if fork_ok env then
                                 (if exec_ok env then script_end env else Exited 255)
                               else status_junk env)
                 in [LOG INFO ''pin %d: running script %s'' [D p, S script_path],
                     FORK (fork_ok env)] @ child @
                    [WAIT (if fork_ok env then Some status else None)] @
                    (case status of
                       Exited n \<Rightarrow>
                         (if 0 \<noteq> n then
                            [LOG WARN ''pin %d: event script exited with status = %d''
                               [D p, D (int n)]]
                          else [])
                     | Signaled s \<Rightarrow>
                         [LOG WARN ''pin %d: event script exited due to signal %d''
                            [D p, D (int s)]]
                     | Neither \<Rightarrow> []) @
                    [FREE]))"

subsection \<open>\<^verbatim>\<open>watch_pins\<close>\<close>

text \<open>
  \<^verbatim>\<open>read(fd, valbuf, 2)\<close>: the result is not looked at. A failed read leaves the buffer
  as it was, a short one replaces only the characters it delivers.
\<close>

datatype read_result = READ_FAIL | READ_OK string

definition read2 :: "read_result \<Rightarrow> string \<Rightarrow> string" where
  "read2 r buf =
     (case r of
        READ_FAIL \<Rightarrow> buf
      | READ_OK bs \<Rightarrow> take 2 bs @ drop (length (take 2 bs)) buf)"

text \<open>
  The locals of \<^verbatim>\<open>watch_pins\<close> that live across iterations. \<^verbatim>\<open>down_at\<close> is declared
  without an initial value: an element is \<open>None\<close> until the program assigns it.
  \<^verbatim>\<open>fdlist\<close> keeps the descriptor of each entry.
\<close>

record watch_state =
  switch_state :: "8 word list"
  down_at :: "64 word option list"
  valbuf :: string
  fdlist :: "int list"

text \<open>
  Memory the program reads without having written it holds whatever was there: the
  two first characters of \<^verbatim>\<open>valbuf\<close>, each element of \<^verbatim>\<open>down_at\<close>, and the array that
  \<^verbatim>\<open>malloc\<close> returns for \<^verbatim>\<open>fdlist\<close>.
\<close>

record junk =
  junk_valbuf :: string
  junk_down_at :: "nat \<Rightarrow> 64 word"
  junk_fd :: int

text \<open>What \<^verbatim>\<open>open\<close> and the first \<^verbatim>\<open>read\<close> return for the entry at an index.\<close>

record init_input =
  open_fd :: int
  init_read :: read_result

text \<open>
  What one return of \<^verbatim>\<open>poll\<close> brings for the entry at an index: whether \<^verbatim>\<open>revents\<close>
  has \<^verbatim>\<open>POLLPRI\<close>, what \<^verbatim>\<open>lseek\<close> and \<^verbatim>\<open>read\<close> then deliver, the seconds of the
  monotonic clock, and the environment of the script.
\<close>

record line_input =
  POLLPRI :: bool
  value_read :: read_result
  tv_sec :: "64 word"
  script :: script_env

datatype errno = EFAULT | EINTR | EINVAL | ENOMEM

datatype poll_result = POLL_ERROR errno | POLL_OK "nat \<Rightarrow> line_input"

text \<open>
  The loop has no exit of its own. On a finite list of \<^verbatim>\<open>poll\<close> results the process
  either is back in \<^verbatim>\<open>poll\<close>, or has called \<^verbatim>\<open>perror\<close> and \<^verbatim>\<open>exit\<close>.
\<close>

datatype outcome = IN_POLL watch_state | PERROR_EXIT string errno int

definition pin_path_of :: "config \<Rightarrow> int \<Rightarrow> string" where
  "pin_path_of cfg p =
     snprintf (length (GPIO_BASE cfg) + GPIODIRLEN cfg + length ''value'' + 3)
       (GPIO_BASE cfg @ ''/gpio'' @ fmt_d p @ ''/value'')"

text \<open>Lines 121 to 130: the state before the first \<^verbatim>\<open>open\<close>.\<close>

definition init_state :: "config \<Rightarrow> junk \<Rightarrow> watch_state" where
  "init_state cfg j =
     \<lparr> switch_state = replicate (num_pins cfg) 0,
       down_at = replicate (num_pins cfg) None,
       valbuf = take 2 (junk_valbuf j) @ [CHR 0x00],
       fdlist = replicate (num_pins cfg) (junk_fd j) \<rparr>"

text \<open>
  Lines 131 to 140, the loop over the table. Neither the descriptor nor the result of
  \<^verbatim>\<open>read\<close> is tested; a \<^verbatim>\<open>read\<close> on a descriptor that is not open fails.
\<close>

primrec open_pins ::
  "config \<Rightarrow> (nat \<Rightarrow> init_input) \<Rightarrow> nat list \<Rightarrow> watch_state
     \<Rightarrow> event list \<times> watch_state" where
  "open_pins cfg opens [] st = ([], st)"
| "open_pins cfg opens (i # is) st =
     (let fd = open_fd (opens i);
          st1 = st\<lparr> valbuf := (if fd < 0 then valbuf st
                                 else read2 (init_read (opens i)) (valbuf st)),
                    fdlist := (fdlist st)[i := fd] \<rparr>
      in case open_pins cfg opens is st1 of
           (tr, st2) \<Rightarrow> (OPEN (pin_path_of cfg (pin (pins cfg ! i))) fd # tr, st2))"

text \<open>
  Lines 154 to 182, the body of the inner loop for the entry \<open>i\<close>. The subtraction
  \<^verbatim>\<open>now - down_at[i]\<close> is on \<^verbatim>\<open>long long\<close>: 64 bits, compared as signed; where C
  leaves an overflow undefined the model wraps around, as the machine does. An
  element of \<^verbatim>\<open>down_at\<close> that was never assigned reads as the memory content.
\<close>

definition pin_event ::
  "config \<Rightarrow> junk \<Rightarrow> line_input \<Rightarrow> nat \<Rightarrow> watch_state \<Rightarrow> event list \<times> watch_state" where
  "pin_event cfg j inp i st =
     (if POLLPRI inp then
        let p = pins cfg ! i;
            received = LOG DEBUG ''pin %d: received event'' [D (pin p)];
            st1 = st\<lparr> valbuf := read2 (value_read inp) (valbuf st) \<rparr>
        in if EDGE_SWITCH = edge p then
             let now = tv_sec inp;
                 d = (case down_at st1 ! i of None \<Rightarrow> junk_down_at j i | Some t \<Rightarrow> t)
             in if switch_state st1 ! i = 0 \<and> valbuf st1 ! 0 = CHR ''1'' then
                  (if 1 <s now - d then
                     (received # run_script cfg (script inp) (pin p) 1,
                      st1\<lparr> down_at := (down_at st1)[i := Some now],
                           switch_state := (switch_state st1)[i := 1] \<rparr>)
                   else ([received], st1))
                else if switch_state st1 ! i = 1 \<and> valbuf st1 ! 0 = CHR ''0'' then
                  (if 1 <s now - d then
                     (received # run_script cfg (script inp) (pin p) 0,
                      st1\<lparr> down_at := (down_at st1)[i := Some now],
                           switch_state := (switch_state st1)[i := 0] \<rparr>)
                   else ([received], st1))
                else ([received], st1)
           else
             (received #
                run_script cfg (script inp) (pin p)
                  (if valbuf st1 ! 0 = CHR ''1'' then 1 else 0),
              st1)
      else ([], st))"

text \<open>Lines 153 to 183: the entries in the order of the table, each event with its index.\<close>

primrec pin_loop ::
  "config \<Rightarrow> junk \<Rightarrow> (nat \<Rightarrow> line_input) \<Rightarrow> nat list \<Rightarrow> watch_state
     \<Rightarrow> (nat \<times> event) list \<times> watch_state" where
  "pin_loop cfg j inps [] st = ([], st)"
| "pin_loop cfg j inps (i # is) st =
     (case pin_event cfg j (inps i) i st of
        (tr1, st1) \<Rightarrow>
          (case pin_loop cfg j inps is st1 of
             (tr2, st2) \<Rightarrow> (map (Pair i) tr1 @ tr2, st2)))"

text \<open>Lines 144 to 184: \<^verbatim>\<open>while (1)\<close>, one iteration for each result of \<^verbatim>\<open>poll\<close>.\<close>

fun watch_loop ::
  "config \<Rightarrow> junk \<Rightarrow> watch_state \<Rightarrow> poll_result list \<Rightarrow> (nat \<times> event) list \<times> outcome" where
  "watch_loop cfg j st [] = ([], IN_POLL st)"
| "watch_loop cfg j st (POLL_ERROR e # rest) = ([], PERROR_EXIT ''poll'' e 1)"
| "watch_loop cfg j st (POLL_OK inps # rest) =
     (case pin_loop cfg j inps [0..<num_pins cfg] st of
        (tr1, st1) \<Rightarrow>
          (case watch_loop cfg j st1 rest of
             (tr2, r) \<Rightarrow> (tr1 @ tr2, r)))"

text \<open>
  Lines 113 to 185. The result is the events of the start, the events of the loop and
  where the process is at the end of the list of \<^verbatim>\<open>poll\<close> results. The two buffers
  of the function are never released; a \<^verbatim>\<open>struct pollfd\<close> takes 8 bytes.
\<close>

definition watch_pins ::
  "config \<Rightarrow> junk \<Rightarrow> (nat \<Rightarrow> init_input) \<Rightarrow> poll_result list
     \<Rightarrow> event list \<times> (nat \<times> event) list \<times> outcome" where
  "watch_pins cfg j opens polls =
     (case open_pins cfg opens [0..<num_pins cfg] (init_state cfg j) of
        (tr0, st0) \<Rightarrow>
          (case watch_loop cfg j st0 polls of
             (tr, r) \<Rightarrow>
               ([MALLOC (length (GPIO_BASE cfg) + GPIODIRLEN cfg + length ''value'' + 3),
                 MALLOC (8 * num_pins cfg)] @ tr0 @
                [LOG INFO ''starting to monitor for gpio events'' []],
                tr, r)))"

subsection \<open>Reading a list of events\<close>

fun is_EXECL :: "event \<Rightarrow> bool" where
  "is_EXECL (EXECL path args) = True"
| "is_EXECL e = False"

fun is_WAIT :: "event \<Rightarrow> bool" where
  "is_WAIT (WAIT s) = True"
| "is_WAIT e = False"

fun is_RUN_SCRIPT :: "event \<Rightarrow> bool" where
  "is_RUN_SCRIPT (RUN_SCRIPT p v) = True"
| "is_RUN_SCRIPT e = False"

text \<open>The values the entry \<open>i\<close> of the table has called \<^verbatim>\<open>run_script\<close> with, in order.\<close>

fun fired :: "nat \<Rightarrow> (nat \<times> event) list \<Rightarrow> int list" where
  "fired i [] = []"
| "fired i ((k, RUN_SCRIPT p v) # tr) = (if k = i then v # fired i tr else fired i tr)"
| "fired i ((k, e) # tr) = fired i tr"

text \<open>Each value is the opposite of the one before, the first the opposite of \<open>s\<close>.\<close>

fun alternates :: "int \<Rightarrow> int list \<Rightarrow> bool" where
  "alternates s [] = True"
| "alternates s (v # vs) = (v = 1 - s \<and> alternates v vs)"

text \<open>The two arrays of line 121 and 122 have one element for each entry of the table.\<close>

definition arrays_ok :: "config \<Rightarrow> watch_state \<Rightarrow> bool" where
  "arrays_ok cfg st =
     (length (switch_state st) = num_pins cfg \<and> length (down_at st) = num_pins cfg)"

text \<open>What a call does once \<^verbatim>\<open>wait\<close> has returned.\<close>

definition after_wait :: "event list \<Rightarrow> event list" where
  "after_wait tr = tl (dropWhile (\<lambda>e. \<not> is_WAIT e) tr)"

text \<open>
  The status the child ends with: the script's own, or 255 from line 93 when
  \<^verbatim>\<open>execl\<close> returns.
\<close>

definition child_status :: "script_env \<Rightarrow> wstatus" where
  "child_status env = (if exec_ok env then script_end env else Exited 255)"

text \<open>The entries whose script is started, in the order of the \<^verbatim>\<open>execl\<close> calls.\<close>

definition starts :: "(nat \<times> event) list \<Rightarrow> nat list" where
  "starts tr = map fst (filter (\<lambda>x. is_EXECL (snd x)) tr)"

text \<open>The status the script of the entry \<open>i\<close> ends with in this iteration.\<close>

definition ends :: "(nat \<Rightarrow> line_input) \<Rightarrow> nat \<Rightarrow> wstatus" where
  "ends inps i = child_status (script (inps i))"

text \<open>
  One script at a time: \<open>r\<close> is the entry whose script runs. A script is started
  only when none runs; while one runs the only steps are its own exit and the
  \<^verbatim>\<open>wait\<close> that returns its status \<open>f i\<close>; at the end none runs.
\<close>

fun serial :: "(nat \<Rightarrow> wstatus) \<Rightarrow> nat option \<Rightarrow> (nat \<times> event) list \<Rightarrow> bool" where
  "serial f r [] = (r = None)"
| "serial f r ((i, EXECL p a) # tr) = (r = None \<and> serial f (Some i) tr)"
| "serial f r ((i, CHILD_EXIT n) # tr) = (r = Some i \<and> serial f r tr)"
| "serial f r ((i, WAIT (Some s)) # tr) = (r = Some i \<and> s = f i \<and> serial f None tr)"
| "serial f r ((i, e) # tr) = (r = None \<and> serial f None tr)"

subsection \<open>A configuration to run the functions on\<close>

text \<open>Pin 4 on both edges and pin 17 as a switch, scripts in the default directory.\<close>

definition example_config :: config where
  "example_config =
     \<lparr> script_dir = ''/etc/gpio-scripts'',
       pins = [\<lparr>pin = 4, edge = EDGE_BOTH\<rparr>, \<lparr>pin = 17, edge = EDGE_SWITCH\<rparr>],
       GPIODIRLEN = 8,
       GPIO_BASE = ''/sys/class/gpio'' \<rparr>"

definition no_file :: "string \<Rightarrow> bool" where
  "no_file path = False"

definition any_file :: "string \<Rightarrow> bool" where
  "any_file path = True"

definition script_env_of :: "(string \<Rightarrow> bool) \<Rightarrow> wstatus \<Rightarrow> script_env" where
  "script_env_of f s =
     \<lparr> fs_is_file = f, fork_ok = True, exec_ok = True, script_end = s,
       status_junk = Neither \<rparr>"

definition example_junk :: junk where
  "example_junk = \<lparr> junk_valbuf = ''??'', junk_down_at = (\<lambda>i. 0), junk_fd = 0 \<rparr>"

text \<open>Both states 0, the last change of pin 17 at second 10.\<close>

definition example_state :: watch_state where
  "example_state =
     \<lparr> switch_state = [0, 0], down_at = [None, Some 10],
       valbuf = [CHR ''0'', CHR 0x0A, CHR 0x00], fdlist = [3, 4] \<rparr>"

text \<open>
  An entry of a \<^verbatim>\<open>poll\<close> result: ready or not, the character of the value file
  (followed by a newline), the second, and how the script ends.
\<close>

definition line_in :: "bool \<Rightarrow> char \<Rightarrow> 64 word \<Rightarrow> wstatus \<Rightarrow> line_input" where
  "line_in r c t s =
     \<lparr> POLLPRI = r, value_read = READ_OK [c, CHR 0x0A], tv_sec = t,
       script = script_env_of any_file s \<rparr>"

text \<open>The same input for every entry, or an event for the entry \<open>k\<close> alone.\<close>

definition all_lines :: "line_input \<Rightarrow> nat \<Rightarrow> line_input" where
  "all_lines inp i = inp"

definition only_line :: "nat \<Rightarrow> line_input \<Rightarrow> nat \<Rightarrow> line_input" where
  "only_line k inp i = (if i = k then inp else inp\<lparr> POLLPRI := False \<rparr>)"

text \<open>Every \<^verbatim>\<open>open\<close> succeeds; or the first one fails, and the \<^verbatim>\<open>read\<close> after it.\<close>

definition opens_ok :: "nat \<Rightarrow> init_input" where
  "opens_ok i = \<lparr> open_fd = 3 + int i, init_read = READ_OK [CHR ''0'', CHR 0x0A] \<rparr>"

definition opens_first_fails :: "nat \<Rightarrow> init_input" where
  "opens_first_fails i =
     (if i = 0 then \<lparr> open_fd = - 1, init_read = READ_FAIL \<rparr>
      else \<lparr> open_fd = 3, init_read = READ_OK [CHR ''0'', CHR 0x0A] \<rparr>)"

text \<open>Three iterations: on, off and on again, three seconds apart.\<close>

definition example_polls :: "poll_result list" where
  "example_polls =
     [POLL_OK (all_lines (line_in True (CHR ''1'') 12 (Exited 0))),
      POLL_OK (all_lines (line_in True (CHR ''0'') 15 (Exited 0))),
      POLL_OK (all_lines (line_in True (CHR ''1'') 18 (Exited 0)))]"

text \<open>The state after the start, and the memory under \<^verbatim>\<open>down_at\<close> filled with \<open>w\<close>.\<close>

definition example_start :: watch_state where
  "example_start =
     \<lparr> switch_state = [0, 0], down_at = [None, None],
       valbuf = [CHR ''0'', CHR 0x0A, CHR 0x00], fdlist = [3, 4] \<rparr>"

definition junk_at :: "64 word \<Rightarrow> junk" where
  "junk_at w = \<lparr> junk_valbuf = ''??'', junk_down_at = (\<lambda>i. w), junk_fd = 0 \<rparr>"

section \<open>Properties of \<^verbatim>\<open>run_script\<close>\<close>

lemma fmt_d_bit: "fmt_d 0 = ''0''" "fmt_d 1 = ''1''"
  by (simp_all add: fmt_d_def digits.simps)

lemmas example_simps =
  example_config_def script_env_of_def no_file_def any_file_def snprintf_def fmt_d_def
  digits.simps

text \<open>Without a script the call is the warning alone: no \<^verbatim>\<open>fork\<close>, and no \<^verbatim>\<open>free\<close> either.\<close>

lemma run_script_without_script:
  assumes "\<not> fs_is_file env (snprintf (length (script_dir cfg) + GPIODIRLEN cfg + 2)
             (script_dir cfg @ ''/'' @ fmt_d p))"
  shows "run_script cfg env p v =
           [RUN_SCRIPT p v, MALLOC (length (script_dir cfg) + GPIODIRLEN cfg + 2),
            LOG WARN FMT_NO_SCRIPT
              [D p, S (snprintf (length (script_dir cfg) + GPIODIRLEN cfg + 2)
                         (script_dir cfg @ ''/'' @ fmt_d p))]]"
  using assms by (simp add: run_script_def Let_def)

text \<open>
  C7, at pin 4 with value 1 and no script in the directory: the call logs the warning
  and starts no process, but it returns at line 82 with the buffer of line 74 still
  allocated; \<^verbatim>\<open>free\<close> at line 108 is only reached on the other path.
\<close>

theorem run_script_no_script_keeps_buffer:
  "run_script example_config (script_env_of no_file (Exited 0)) 4 1 =
     [RUN_SCRIPT 4 1, MALLOC 27,
      LOG WARN FMT_NO_SCRIPT [D 4, S ''/etc/gpio-scripts/4'']]"
  by (simp add: run_script_def example_simps)

text \<open>
  C6: when the script has been started and \<^verbatim>\<open>wait\<close> has returned, a normal end with
  status 0 logs nothing, a normal end with another status logs one warning with that
  status, an end by a signal logs one warning with the signal number, and the call
  then releases its buffer and returns. The iteration of the loop that made the call
  ends back in \<^verbatim>\<open>poll\<close>, whatever the scripts did.
\<close>

theorem run_script_reports_status:
  assumes "fs_is_file env (snprintf (length (script_dir cfg) + GPIODIRLEN cfg + 2)
             (script_dir cfg @ ''/'' @ fmt_d p))"
    and "v = 0 \<or> v = 1"
    and "fork_ok env"
  shows "after_wait (run_script cfg env p v) =
           (case child_status env of
              Exited n \<Rightarrow>
                (if n = 0 then []
                 else [LOG WARN ''pin %d: event script exited with status = %d''
                         [D p, D (int n)]])
            | Signaled s \<Rightarrow>
                [LOG WARN ''pin %d: event script exited due to signal %d''
                   [D p, D (int s)]]
            | Neither \<Rightarrow> []) @ [FREE]
         \<and> snd (watch_loop cfg j st [POLL_OK inps]) =
             IN_POLL (snd (pin_loop cfg j inps [0..<num_pins cfg] st))"
  using assms
  by (auto simp add: run_script_def Let_def after_wait_def child_status_def fmt_d_bit
      split: wstatus.splits prod.splits)

theorem run_script_reports_status_witness:
  "after_wait (run_script example_config (script_env_of any_file (Exited 0)) 4 1) = [FREE]
   \<and> after_wait (run_script example_config (script_env_of any_file (Exited 7)) 4 1) =
       [LOG WARN ''pin %d: event script exited with status = %d'' [D 4, D 7], FREE]
   \<and> after_wait (run_script example_config (script_env_of any_file (Signaled 9)) 4 0) =
       [LOG WARN ''pin %d: event script exited due to signal %d'' [D 4, D 9], FREE]"
proof -
  have f: "fs_is_file (script_env_of any_file s)
             (snprintf (length (script_dir example_config) + GPIODIRLEN example_config + 2)
                (script_dir example_config @ ''/'' @ fmt_d 4))" for s
    by (simp add: script_env_of_def any_file_def)
  have k: "fork_ok (script_env_of any_file s)" for s
    by (simp add: script_env_of_def)
  have v1: "(1::int) = 0 \<or> (1::int) = 1" and v0: "(0::int) = 0 \<or> (0::int) = 1"
    by simp_all
  show ?thesis
    using run_script_reports_status [OF f v1 k, of "Exited 0"]
      run_script_reports_status [OF f v1 k, of "Exited 7"]
      run_script_reports_status [OF f v0 k, of "Signaled 9"]
    by (simp add: child_status_def script_env_of_def)
qed

text \<open>
  C5: when the script file is there, \<^verbatim>\<open>fork\<close> makes a child and the decimal form of
  the pin fits the buffer \<^verbatim>\<open>pin_str\<close>, the call makes exactly one \<^verbatim>\<open>execl\<close>, of the
  path \<^verbatim>\<open>script_dir/pin\<close>, with that path, the pin in decimal and the value as
  \<^verbatim>\<open>"0"\<close> or \<^verbatim>\<open>"1"\<close>. From there to the return of \<^verbatim>\<open>wait\<close> the parent does nothing
  (the only step is the child's own exit when \<^verbatim>\<open>execl\<close> fails), and \<^verbatim>\<open>wait\<close> returns
  the status this child ended with.
\<close>

theorem run_script_execl_arguments:
  assumes "fs_is_file env (script_dir cfg @ ''/'' @ fmt_d p)"
    and "v = 0 \<or> v = 1"
    and "fork_ok env"
    and "length (fmt_d p) < GPIODIRLEN cfg"
  shows "filter is_EXECL (run_script cfg env p v) =
           [EXECL (script_dir cfg @ ''/'' @ fmt_d p)
              [script_dir cfg @ ''/'' @ fmt_d p, fmt_d p, if v = 1 then ''1'' else ''0'']]
         \<and> takeWhile (\<lambda>e. \<not> is_WAIT e)
               (tl (dropWhile (\<lambda>e. \<not> is_EXECL e) (run_script cfg env p v))) =
             (if exec_ok env then [] else [CHILD_EXIT 255])
         \<and> hd (dropWhile (\<lambda>e. \<not> is_WAIT e) (run_script cfg env p v)) =
             WAIT (Some (child_status env))"
  using assms
  by (auto simp add: run_script_def Let_def snprintf_def child_status_def fmt_d_bit
      split: wstatus.splits)

theorem run_script_execl_arguments_witness:
  "filter is_EXECL (run_script example_config (script_env_of any_file (Exited 0)) 17 1) =
     [EXECL ''/etc/gpio-scripts/17'' [''/etc/gpio-scripts/17'', ''17'', ''1'']]
   \<and> hd (dropWhile (\<lambda>e. \<not> is_WAIT e)
           (run_script example_config (script_env_of any_file (Exited 0)) 17 1)) =
       WAIT (Some (Exited 0))"
proof -
  have f: "fs_is_file (script_env_of any_file (Exited 0))
             (script_dir example_config @ ''/'' @ fmt_d 17)"
    by (simp add: script_env_of_def any_file_def)
  have v: "(1::int) = 0 \<or> (1::int) = 1"
    by simp
  have k: "fork_ok (script_env_of any_file (Exited 0))"
    by (simp add: script_env_of_def)
  have l: "length (fmt_d 17) < GPIODIRLEN example_config"
    by (simp add: example_simps)
  show ?thesis
    using run_script_execl_arguments [OF f v k l]
    by (simp add: child_status_def example_simps)
qed

section \<open>Properties of one event\<close>

lemma run_script_calls [simp]:
  "filter is_RUN_SCRIPT (run_script cfg env p v) = [RUN_SCRIPT p v]"
  by (simp add: run_script_def Let_def split: wstatus.splits)

lemma read2_first [simp]: "read2 (READ_OK (c # cs)) buf ! 0 = c"
  by (simp add: read2_def)

text \<open>When the difference of the two times fits 64 bits, the comparison is the one on integers.\<close>

lemma sless_diff:
  fixes now d :: "64 word"
  assumes "- (2 ^ 63) \<le> sint now - sint d" and "sint now - sint d < 2 ^ 63"
  shows "1 <s now - d \<longleftrightarrow> 1 < sint now - sint d"
  using assms
  by (simp add: word_sless_alt sint_word_ariths signed_take_bit_int_eq_self)

text \<open>
  C2: for an entry whose edge is not \<^verbatim>\<open>EDGE_SWITCH\<close>, an event whose read delivers a
  character makes exactly one call of \<^verbatim>\<open>run_script\<close>, with 1 when the character is
  \<^verbatim>\<open>'1'\<close> and 0 otherwise. What the event does is the same in every state, and it
  leaves the switch state and the times as they were.
\<close>

theorem pin_event_other_edge:
  assumes "i < num_pins cfg"
    and "edge (pins cfg ! i) \<noteq> EDGE_SWITCH"
    and "POLLPRI inp"
    and "value_read inp = READ_OK (c # cs)"
  shows "filter is_RUN_SCRIPT (fst (pin_event cfg j inp i st)) =
           [RUN_SCRIPT (pin (pins cfg ! i)) (if c = CHR ''1'' then 1 else 0)]
         \<and> fst (pin_event cfg j inp i st) =
             LOG DEBUG ''pin %d: received event'' [D (pin (pins cfg ! i))] #
             run_script cfg (script inp) (pin (pins cfg ! i)) (if c = CHR ''1'' then 1 else 0)
         \<and> switch_state (snd (pin_event cfg j inp i st)) = switch_state st
         \<and> down_at (snd (pin_event cfg j inp i st)) = down_at st"
  using assms
  by (simp add: pin_event_def Let_def)

theorem pin_event_other_edge_witness:
  "filter is_RUN_SCRIPT
     (fst (pin_event example_config example_junk (line_in True (CHR ''1'') 12 (Exited 0)) 0
        example_state)) = [RUN_SCRIPT 4 1]
   \<and> filter is_RUN_SCRIPT
     (fst (pin_event example_config example_junk (line_in True (CHR ''1'') 12 (Exited 0)) 0
        (snd (pin_event example_config example_junk (line_in True (CHR ''1'') 12 (Exited 0)) 0
        example_state)))) = [RUN_SCRIPT 4 1]"
proof -
  have i: "0 < num_pins example_config"
    and e: "edge (pins example_config ! 0) \<noteq> EDGE_SWITCH"
    by (simp_all add: example_config_def)
  have r: "POLLPRI (line_in True (CHR ''1'') 12 (Exited 0))"
    and v: "value_read (line_in True (CHR ''1'') 12 (Exited 0)) = READ_OK [CHR ''1'', CHR 0x0A]"
    by (simp_all add: line_in_def)
  show ?thesis
    using pin_event_other_edge [OF i e r v, of example_junk]
    by (simp add: example_config_def)
qed

text \<open>
  C1, as the code has it: for an entry with \<^verbatim>\<open>EDGE_SWITCH\<close> whose element of
  \<^verbatim>\<open>down_at\<close> holds the time \<open>d\<close> of a confirmed change, and an event whose read delivers
  the character \<open>c\<close>, the difference of the clock and \<open>d\<close> being within 64 bits. If the
  state is 0, \<open>c\<close> is \<^verbatim>\<open>'1'\<close> and the clock minus \<open>d\<close> is more than 1, the state becomes
  1, the time becomes the clock and \<^verbatim>\<open>run_script\<close> is called once with 1; the same from
  state 1 with \<^verbatim>\<open>'0'\<close>, to 0. In every other case the state and the time stay and there
  is no call. A character that says what the state already is makes no call, and so
  after an event that made a call an event with the same character makes none.
\<close>

theorem pin_event_switch:
  fixes d :: "64 word"
  assumes "i < num_pins cfg"
    and "length (switch_state st) = num_pins cfg"
    and "length (down_at st) = num_pins cfg"
    and "edge (pins cfg ! i) = EDGE_SWITCH"
    and "POLLPRI inp"
    and "value_read inp = READ_OK (c # cs)"
    and "POLLPRI inp'"
    and "value_read inp' = READ_OK (c # cs')"
    and "down_at st ! i = Some d"
    and "- (2 ^ 63) \<le> sint (tv_sec inp) - sint d"
    and "sint (tv_sec inp) - sint d < 2 ^ 63"
    and "st' = snd (pin_event cfg j inp i st)"
    and "calls = filter is_RUN_SCRIPT (fst (pin_event cfg j inp i st))"
  shows "(if switch_state st ! i = 0 \<and> c = CHR ''1'' \<and> 1 < sint (tv_sec inp) - sint d then
            switch_state st' ! i = 1 \<and> down_at st' ! i = Some (tv_sec inp)
            \<and> calls = [RUN_SCRIPT (pin (pins cfg ! i)) 1]
          else if switch_state st ! i = 1 \<and> c = CHR ''0'' \<and> 1 < sint (tv_sec inp) - sint d then
            switch_state st' ! i = 0 \<and> down_at st' ! i = Some (tv_sec inp)
            \<and> calls = [RUN_SCRIPT (pin (pins cfg ! i)) 0]
          else
            switch_state st' = switch_state st \<and> down_at st' = down_at st \<and> calls = [])
         \<and> (if (switch_state st ! i = 0 \<and> c = CHR ''0'')
                 \<or> (switch_state st ! i = 1 \<and> c = CHR ''1'')
             then calls = [] else True)
         \<and> (calls = [] \<or> filter is_RUN_SCRIPT (fst (pin_event cfg j inp' i st')) = [])"
proof -
  have g: "1 <s tv_sec inp - d \<longleftrightarrow> 1 < sint (tv_sec inp) - sint d"
    using assms(10,11) by (rule sless_diff)
  have b: "valbuf (st\<lparr>valbuf := read2 (value_read inp) (valbuf st)\<rparr>) ! 0 = c"
    using assms(6) by simp
  have b': "read2 (value_read inp') buf ! 0 = c" for buf
    using assms(8) by simp
  consider (up) "switch_state st ! i = 0" "c = CHR ''1''" "1 < sint (tv_sec inp) - sint d"
    | (down) "switch_state st ! i = 1" "c = CHR ''0''" "1 < sint (tv_sec inp) - sint d"
    | (none) "\<not> (switch_state st ! i = 0 \<and> c = CHR ''1'' \<and> 1 < sint (tv_sec inp) - sint d)"
        "\<not> (switch_state st ! i = 1 \<and> c = CHR ''0'' \<and> 1 < sint (tv_sec inp) - sint d)"
    by blast
  then show ?thesis
  proof cases
    case up
    have e: "pin_event cfg j inp i st =
        (LOG DEBUG ''pin %d: received event'' [D (pin (pins cfg ! i))] #
           run_script cfg (script inp) (pin (pins cfg ! i)) 1,
         st\<lparr>valbuf := read2 (value_read inp) (valbuf st),
            down_at := (down_at st)[i := Some (tv_sec inp)],
            switch_state := (switch_state st)[i := 1]\<rparr>)"
      using assms(4,5,9) g up b unfolding pin_event_def Let_def by simp
    have s: "st' = st\<lparr>valbuf := read2 (value_read inp) (valbuf st),
            down_at := (down_at st)[i := Some (tv_sec inp)],
            switch_state := (switch_state st)[i := 1]\<rparr>"
      unfolding assms(12) e by simp
    have e': "fst (pin_event cfg j inp' i st') =
        [LOG DEBUG ''pin %d: received event'' [D (pin (pins cfg ! i))]]"
      using assms(1,2,4,7) up(2) b' unfolding s pin_event_def Let_def by simp
    show ?thesis
      using up assms(1-3) e' unfolding assms(13) e s by simp
  next
    case down
    have e: "pin_event cfg j inp i st =
        (LOG DEBUG ''pin %d: received event'' [D (pin (pins cfg ! i))] #
           run_script cfg (script inp) (pin (pins cfg ! i)) 0,
         st\<lparr>valbuf := read2 (value_read inp) (valbuf st),
            down_at := (down_at st)[i := Some (tv_sec inp)],
            switch_state := (switch_state st)[i := 0]\<rparr>)"
      using assms(4,5,9) g down b unfolding pin_event_def Let_def by simp
    have s: "st' = st\<lparr>valbuf := read2 (value_read inp) (valbuf st),
            down_at := (down_at st)[i := Some (tv_sec inp)],
            switch_state := (switch_state st)[i := 0]\<rparr>"
      unfolding assms(12) e by simp
    have e': "fst (pin_event cfg j inp' i st') =
        [LOG DEBUG ''pin %d: received event'' [D (pin (pins cfg ! i))]]"
      using assms(1,2,4,7) down(2) b' unfolding s pin_event_def Let_def by simp
    show ?thesis
      using down assms(1-3) e' unfolding assms(13) e s by simp
  next
    case none
    have e: "pin_event cfg j inp i st =
        ([LOG DEBUG ''pin %d: received event'' [D (pin (pins cfg ! i))]],
         st\<lparr>valbuf := read2 (value_read inp) (valbuf st)\<rparr>)"
      using assms(4,5,9) g none b unfolding pin_event_def Let_def by auto
    show ?thesis
      using none unfolding assms(12,13) e by simp
  qed
qed

theorem pin_event_switch_witness:
  "switch_state (snd (pin_event example_config example_junk
       (line_in True (CHR ''1'') 12 (Exited 0)) 1 example_state)) ! 1 = 1
   \<and> down_at (snd (pin_event example_config example_junk
       (line_in True (CHR ''1'') 12 (Exited 0)) 1 example_state)) ! 1 = Some 12
   \<and> filter is_RUN_SCRIPT (fst (pin_event example_config example_junk
       (line_in True (CHR ''1'') 12 (Exited 0)) 1 example_state)) = [RUN_SCRIPT 17 1]
   \<and> filter is_RUN_SCRIPT (fst (pin_event example_config example_junk
       (line_in True (CHR ''1'') 15 (Exited 0)) 1
       (snd (pin_event example_config example_junk
          (line_in True (CHR ''1'') 12 (Exited 0)) 1 example_state)))) = []"
proof -
  have i: "1 < num_pins example_config"
    and e: "edge (pins example_config ! 1) = EDGE_SWITCH"
    and l1: "length (switch_state example_state) = num_pins example_config"
    and l2: "length (down_at example_state) = num_pins example_config"
    by (simp_all add: example_config_def example_state_def)
  have r: "POLLPRI (line_in True (CHR ''1'') t (Exited 0))"
    and v: "value_read (line_in True (CHR ''1'') t (Exited 0)) = READ_OK [CHR ''1'', CHR 0x0A]"
    for t
    by (simp_all add: line_in_def)
  have d: "down_at example_state ! 1 = Some 10"
    by (simp add: example_state_def)
  have lo: "- (2 ^ 63) \<le>
              sint (tv_sec (line_in True (CHR ''1'') 12 (Exited 0))) - sint (10 :: 64 word)"
    and hi: "sint (tv_sec (line_in True (CHR ''1'') 12 (Exited 0))) - sint (10 :: 64 word)
               < 2 ^ 63"
    by (simp_all add: line_in_def)
  show ?thesis
    using pin_event_switch [where j = example_junk,
        OF i l1 l2 e r [of 12] v [of 12] r [of 15] v [of 15] d lo hi refl refl]
    by (auto simp add: example_config_def example_state_def line_in_def)
qed

text \<open>
  C1 as stated fails in its last sentence: with the last change at second 10, a
  \<^verbatim>\<open>'1'\<close> at second 11 is inside the window and makes no call, and the same \<^verbatim>\<open>'1'\<close>
  again at second 13 makes the call.
\<close>

theorem repeated_raw_value_fires_counterexample:
  "filter is_RUN_SCRIPT (fst (pin_event example_config example_junk
       (line_in True (CHR ''1'') 11 (Exited 0)) 1 example_state)) = []
   \<and> filter is_RUN_SCRIPT (fst (pin_event example_config example_junk
       (line_in True (CHR ''1'') 13 (Exited 0)) 1
       (snd (pin_event example_config example_junk
          (line_in True (CHR ''1'') 11 (Exited 0)) 1 example_state)))) = [RUN_SCRIPT 17 1]"
  by code_simp

section \<open>Properties of the loop\<close>

subsection \<open>The start and \<^verbatim>\<open>poll\<close>\<close>

lemma open_pins_events:
  "fst (open_pins cfg opens ks st) =
     map (\<lambda>i. OPEN (pin_path_of cfg (pin (pins cfg ! i))) (open_fd (opens i))) ks"
  by (induction ks arbitrary: st) (simp_all add: Let_def case_prod_beta)

lemma open_pins_keeps:
  "switch_state (snd (open_pins cfg opens ks st)) = switch_state st
   \<and> down_at (snd (open_pins cfg opens ks st)) = down_at st
   \<and> length (fdlist (snd (open_pins cfg opens ks st))) = length (fdlist st)"
  by (induction ks arbitrary: st) (simp_all add: Let_def case_prod_beta)

lemma open_pins_other:
  "i \<notin> set ks \<Longrightarrow> fdlist (snd (open_pins cfg opens ks st)) ! i = fdlist st ! i"
  by (induction ks arbitrary: st) (simp_all add: Let_def case_prod_beta)

lemma open_pins_fd:
  "i \<in> set ks \<Longrightarrow> i < length (fdlist st) \<Longrightarrow>
     fdlist (snd (open_pins cfg opens ks st)) ! i = open_fd (opens i)"
proof (induction ks arbitrary: st)
  case Nil
  then show ?case by simp
next
  case (Cons k ks)
  let ?st1 = "st\<lparr> valbuf := (if open_fd (opens k) < 0 then valbuf st
                                 else read2 (init_read (opens k)) (valbuf st)),
                    fdlist := (fdlist st)[k := open_fd (opens k)] \<rparr>"
  have u: "snd (open_pins cfg opens (k # ks) st) = snd (open_pins cfg opens ks ?st1)"
    by (simp add: Let_def case_prod_beta)
  show ?case
  proof (cases "i \<in> set ks")
    case True
    with Cons.IH [of ?st1] Cons.prems show ?thesis
      unfolding u by simp
  next
    case False
    with Cons.prems have "i = k" by simp
    with False Cons.prems open_pins_other [of i ks cfg opens ?st1] show ?thesis
      unfolding u by simp
  qed
qed

lemma open_pins_fdlist:
  "fdlist (snd (open_pins cfg opens [0..<num_pins cfg] (init_state cfg j))) =
     map (\<lambda>i. open_fd (opens i)) [0..<num_pins cfg]"
proof (rule nth_equalityI)
  show "length (fdlist (snd (open_pins cfg opens [0..<num_pins cfg] (init_state cfg j)))) =
        length (map (\<lambda>i. open_fd (opens i)) [0..<num_pins cfg])"
    using open_pins_keeps [of cfg opens "[0..<num_pins cfg]" "init_state cfg j"]
    by (simp add: init_state_def)
next
  fix i
  assume "i < length (fdlist (snd (open_pins cfg opens [0..<num_pins cfg] (init_state cfg j))))"
  then have i: "i < num_pins cfg"
    using open_pins_keeps [of cfg opens "[0..<num_pins cfg]" "init_state cfg j"]
    by (simp add: init_state_def)
  then show "fdlist (snd (open_pins cfg opens [0..<num_pins cfg] (init_state cfg j))) ! i =
             map (\<lambda>i. open_fd (opens i)) [0..<num_pins cfg] ! i"
    using open_pins_fd [of i "[0..<num_pins cfg]" "init_state cfg j" cfg opens]
    by (simp add: init_state_def)
qed

lemma watch_loop_error:
  "snd (watch_loop cfg j st (map POLL_OK oks @ POLL_ERROR e # rest)) = PERROR_EXIT ''poll'' e 1"
  by (induction oks arbitrary: st) (simp_all add: case_prod_beta)

lemma watch_loop_ok:
  "\<exists>st'. snd (watch_loop cfg j st (map POLL_OK oks)) = IN_POLL st'"
  by (induction oks arbitrary: st) (simp_all add: case_prod_beta)

text \<open>
  C3, as the code has it: at the start neither the descriptor that \<^verbatim>\<open>open\<close> returns nor
  the result of the first \<^verbatim>\<open>read\<close> is tested. Whatever they are, every entry of the
  table is opened in turn, its descriptor is kept (\<open>- 1\<close> after a failure), the start
  is logged and the process waits in \<^verbatim>\<open>poll\<close> with the whole table.
\<close>

theorem startup_ignores_open_and_read:
  "fst (watch_pins cfg j opens polls) =
     [MALLOC (length (GPIO_BASE cfg) + GPIODIRLEN cfg + length ''value'' + 3),
      MALLOC (8 * num_pins cfg)] @
     map (\<lambda>i. OPEN (pin_path_of cfg (pin (pins cfg ! i))) (open_fd (opens i)))
       [0..<num_pins cfg] @
     [LOG INFO ''starting to monitor for gpio events'' []]
   \<and> (\<exists>st. snd (snd (watch_pins cfg j opens [])) = IN_POLL st
          \<and> fdlist st = map (\<lambda>i. open_fd (opens i)) [0..<num_pins cfg])"
  using open_pins_events [of cfg opens "[0..<num_pins cfg]" "init_state cfg j"]
    open_pins_fdlist [of cfg opens j]
  by (simp add: watch_pins_def case_prod_beta)

text \<open>
  C3 as stated fails: the first \<^verbatim>\<open>open\<close> and its \<^verbatim>\<open>read\<close> fail, the process does not
  exit, and an event on the second entry runs its script.
\<close>

theorem startup_failure_is_fatal_counterexample:
  "snd (snd (watch_pins example_config example_junk opens_first_fails
      [POLL_OK (only_line 1 (line_in True (CHR ''1'') 12 (Exited 0)))])) =
     IN_POLL \<lparr> switch_state = [0, 1], down_at = [None, Some 12],
               valbuf = [CHR ''1'', CHR 0x0A, CHR 0x00], fdlist = [- 1, 3] \<rparr>
   \<and> fired 1 (fst (snd (watch_pins example_config example_junk opens_first_fails
      [POLL_OK (only_line 1 (line_in True (CHR ''1'') 12 (Exited 0)))]))) = [1]"
  by code_simp

text \<open>
  C4, as the code has it: after any number of iterations, a \<^verbatim>\<open>poll\<close> that fails ends
  the process with \<^verbatim>\<open>perror\<close> and status 1 for every \<^verbatim>\<open>errno\<close>, \<^verbatim>\<open>EINTR\<close> too; as
  long as \<^verbatim>\<open>poll\<close> does not fail the process stays in the loop.
\<close>

theorem poll_failure_exits:
  "snd (snd (watch_pins cfg j opens (map POLL_OK oks @ POLL_ERROR e # rest))) =
     PERROR_EXIT ''poll'' e 1
   \<and> (\<exists>st. snd (snd (watch_pins cfg j opens (map POLL_OK oks))) = IN_POLL st)"
  using watch_loop_error [of cfg j _ oks e rest] watch_loop_ok [of cfg j _ oks]
  by (simp add: watch_pins_def case_prod_beta)

text \<open>C4 as stated fails: a \<^verbatim>\<open>poll\<close> interrupted by a signal ends the process.\<close>

theorem interrupted_poll_is_harmless_counterexample:
  "snd (snd (watch_pins example_config example_junk opens_ok [POLL_ERROR EINTR])) =
     PERROR_EXIT ''poll'' EINTR 1"
  by code_simp


subsection \<open>The order inside one iteration\<close>

lemma serial_append: "serial f r xs \<Longrightarrow> serial f None ys \<Longrightarrow> serial f r (xs @ ys)"
  by (induction f r xs rule: serial.induct) simp_all

lemma serial_running:
  "serial f (Some i) (ys @ (k, EXECL q b) # zs) \<Longrightarrow> (i, WAIT (Some (f i))) \<in> set ys"
proof (induction ys)
  case Nil
  then show ?case by simp
next
  case (Cons y ys)
  obtain m e where y: "y = (m, e)" by (cases y)
  show ?case
  proof (cases e)
    case (WAIT w)
    with Cons y show ?thesis by (cases w) auto
  qed (use Cons y in auto)
qed

lemma serial_between:
  "serial f r (xs @ (i, EXECL p a) # ys @ (k, EXECL q b) # zs) \<Longrightarrow>
     (i, WAIT (Some (f i))) \<in> set ys"
proof (induction f r xs rule: serial.induct)
  case (1 f r)
  then show ?case by (auto dest: serial_running)
qed auto

lemma serial_run_script:
  "v = 0 \<or> v = 1 \<Longrightarrow> f i = child_status env \<Longrightarrow>
     serial f None (map (Pair i) (run_script cfg env p v))"
  by (auto simp add: run_script_def Let_def fmt_d_bit child_status_def split: wstatus.splits)

lemma starts_run_script:
  "v = 0 \<or> v = 1 \<Longrightarrow> starts (map (Pair i) (run_script cfg env p v)) = [] \<or>
     starts (map (Pair i) (run_script cfg env p v)) = [i]"
  by (auto simp add: starts_def run_script_def Let_def fmt_d_bit split: wstatus.splits)

lemma pin_event_serial:
  "f i = child_status (script inp) \<Longrightarrow>
     serial f None (map (Pair i) (fst (pin_event cfg j inp i st)))"
  by (simp add: pin_event_def Let_def serial_run_script)

lemma pin_event_starts:
  "starts (map (Pair i) (fst (pin_event cfg j inp i st))) = [] \<or>
   starts (map (Pair i) (fst (pin_event cfg j inp i st))) = [i]"
  using starts_run_script [of 0 i cfg "script inp" "pin (pins cfg ! i)"]
    starts_run_script [of 1 i cfg "script inp" "pin (pins cfg ! i)"]
  by (auto simp add: pin_event_def Let_def starts_def)

lemma starts_append: "starts (xs @ ys) = starts xs @ starts ys"
  by (simp add: starts_def)

lemma pin_loop_serial: "serial (ends inps) None (fst (pin_loop cfg j inps ks st))"
proof (induction ks arbitrary: st)
  case Nil
  show ?case by simp
next
  case (Cons k ks)
  obtain evs st1 where e: "pin_event cfg j (inps k) k st = (evs, st1)"
    by (cases "pin_event cfg j (inps k) k st")
  obtain tr2 st2 where l: "pin_loop cfg j inps ks st1 = (tr2, st2)"
    by (cases "pin_loop cfg j inps ks st1")
  from pin_event_serial [of "ends inps" k "inps k" cfg j st] e
  have a: "serial (ends inps) None (map (Pair k) evs)" by (simp add: ends_def)
  from Cons.IH [of st1] l have b: "serial (ends inps) None tr2" by simp
  show ?case
    using serial_append [OF a b] e l by simp
qed

lemma pin_loop_tags: "fst ` set (fst (pin_loop cfg j inps ks st)) \<subseteq> set ks"
proof (induction ks arbitrary: st)
  case Nil
  show ?case by simp
next
  case (Cons k ks)
  obtain evs st1 where e: "pin_event cfg j (inps k) k st = (evs, st1)"
    by (cases "pin_event cfg j (inps k) k st")
  obtain tr2 st2 where l: "pin_loop cfg j inps ks st1 = (tr2, st2)"
    by (cases "pin_loop cfg j inps ks st1")
  from Cons.IH [of st1] l have "fst ` set tr2 \<subseteq> set ks" by simp
  then show ?case using e l by auto
qed

lemma pin_loop_sorted:
  "sorted_wrt (<) ks \<Longrightarrow> sorted (map fst (fst (pin_loop cfg j inps ks st)))"
proof (induction ks arbitrary: st)
  case Nil
  show ?case by simp
next
  case (Cons k ks)
  obtain evs st1 where e: "pin_event cfg j (inps k) k st = (evs, st1)"
    by (cases "pin_event cfg j (inps k) k st")
  obtain tr2 st2 where l: "pin_loop cfg j inps ks st1 = (tr2, st2)"
    by (cases "pin_loop cfg j inps ks st1")
  from Cons.prems have gt: "\<forall>x \<in> set ks. k < x" and s: "sorted_wrt (<) ks" by simp_all
  from pin_loop_tags [of cfg j inps ks st1] l gt have t: "\<forall>x \<in> set tr2. k < fst x"
    by auto
  from Cons.IH [OF s, of st1] l have s2: "sorted (map fst tr2)" by simp
  have c: "map fst (map (Pair k) evs) = replicate (length evs) k"
    by (simp add: comp_def map_replicate_const)
  have "sorted (map fst (map (Pair k) evs @ tr2))"
    unfolding map_append sorted_append c using s2 t by (auto simp add: less_imp_le)
  then show ?case using e l by simp
qed

lemma starts_subset: "set (starts tr) \<subseteq> fst ` set tr"
  by (auto simp add: starts_def)

lemma pin_loop_starts:
  "sorted_wrt (<) ks \<Longrightarrow> sorted_wrt (<) (starts (fst (pin_loop cfg j inps ks st)))"
proof (induction ks arbitrary: st)
  case Nil
  show ?case by (simp add: starts_def)
next
  case (Cons k ks)
  obtain evs st1 where e: "pin_event cfg j (inps k) k st = (evs, st1)"
    by (cases "pin_event cfg j (inps k) k st")
  obtain tr2 st2 where l: "pin_loop cfg j inps ks st1 = (tr2, st2)"
    by (cases "pin_loop cfg j inps ks st1")
  from Cons.prems have gt: "\<forall>x \<in> set ks. k < x" and s: "sorted_wrt (<) ks" by simp_all
  from pin_loop_tags [of cfg j inps ks st1] l starts_subset [of tr2]
  have "set (starts tr2) \<subseteq> set ks" by simp
  with gt have t: "\<forall>x \<in> set (starts tr2). k < x" by blast
  from Cons.IH [OF s, of st1] l have s2: "sorted_wrt (<) (starts tr2)" by simp
  from pin_event_starts [of k cfg j "inps k" st] e
  have c: "starts (map (Pair k) evs) = [] \<or> starts (map (Pair k) evs) = [k]" by simp
  have "sorted_wrt (<) (starts (map (Pair k) evs) @ starts tr2)"
    using c s2 t by (auto simp add: sorted_wrt_append)
  then show ?case using e l by (simp add: starts_append)
qed

text \<open>
  C8: in one iteration the events are in the order of the table, the scripts are
  started in strictly ascending order of their entries, and between the \<^verbatim>\<open>execl\<close> of
  one entry and the \<^verbatim>\<open>execl\<close> of a later one lies the \<^verbatim>\<open>wait\<close> that returns the status
  the first script ended with.
\<close>

theorem wake_in_table_order:
  assumes "tr = fst (pin_loop cfg j inps [0..<num_pins cfg] st)"
  shows "sorted (map fst tr)
         \<and> sorted_wrt (<) (starts tr)
         \<and> (\<forall>xs i p a ys k q b zs.
               tr = xs @ (i, EXECL p a) # ys @ (k, EXECL q b) # zs \<longrightarrow>
               i < k \<and> (i, WAIT (Some (ends inps i))) \<in> set ys)"
proof -
  have u: "sorted_wrt (<) [0..<num_pins cfg]"
    by simp
  have s: "serial (ends inps) None tr"
    unfolding assms by (rule pin_loop_serial)
  have st: "sorted_wrt (<) (starts tr)"
    unfolding assms by (rule pin_loop_starts [OF u])
  have "i < k \<and> (i, WAIT (Some (ends inps i))) \<in> set ys"
    if d: "tr = xs @ (i, EXECL p a) # ys @ (k, EXECL q b) # zs"
    for xs i p a ys k q b zs
  proof
    from st have "sorted_wrt (<) (starts xs @ i # starts ys @ k # starts zs)"
      unfolding d by (simp add: starts_def)
    then show "i < k"
      by (auto simp add: sorted_wrt_append)
    from s show "(i, WAIT (Some (ends inps i))) \<in> set ys"
      unfolding d by (rule serial_between)
  qed
  then show ?thesis
    using st pin_loop_sorted [OF u, of cfg j inps st] assms by blast
qed


theorem wake_in_table_order_witness:
  "fst (pin_loop example_config example_junk
          (all_lines (line_in True (CHR ''1'') 12 (Exited 0)))
          [0..<num_pins example_config] example_state) =
     [(0, LOG DEBUG ''pin %d: received event'' [D 4]), (0, RUN_SCRIPT 4 1), (0, MALLOC 27),
      (0, LOG INFO ''pin %d: running script %s'' [D 4, S ''/etc/gpio-scripts/4'']),
      (0, FORK True)] @
     (0, EXECL ''/etc/gpio-scripts/4'' [''/etc/gpio-scripts/4'', ''4'', ''1'']) #
     [(0, WAIT (Some (Exited 0))), (0, FREE),
      (1, LOG DEBUG ''pin %d: received event'' [D 17]), (1, RUN_SCRIPT 17 1), (1, MALLOC 27),
      (1, LOG INFO ''pin %d: running script %s'' [D 17, S ''/etc/gpio-scripts/17'']),
      (1, FORK True)] @
     (1, EXECL ''/etc/gpio-scripts/17'' [''/etc/gpio-scripts/17'', ''17'', ''1'']) #
     [(1, WAIT (Some (Exited 0))), (1, FREE)]
   \<and> (0 :: nat) < 1
   \<and> (0, WAIT (Some (ends (all_lines (line_in True (CHR ''1'') 12 (Exited 0))) 0))) \<in>
       set [(0, WAIT (Some (Exited 0))), (0, FREE),
            (1, LOG DEBUG ''pin %d: received event'' [D 17]), (1, RUN_SCRIPT 17 1),
            (1, MALLOC 27),
            (1, LOG INFO ''pin %d: running script %s'' [D 17, S ''/etc/gpio-scripts/17'']),
            (1, FORK True)]"
proof -
  have d: "fst (pin_loop example_config example_junk
          (all_lines (line_in True (CHR ''1'') 12 (Exited 0)))
          [0..<num_pins example_config] example_state) =
     [(0, LOG DEBUG ''pin %d: received event'' [D 4]), (0, RUN_SCRIPT 4 1), (0, MALLOC 27),
      (0, LOG INFO ''pin %d: running script %s'' [D 4, S ''/etc/gpio-scripts/4'']),
      (0, FORK True)] @
     (0, EXECL ''/etc/gpio-scripts/4'' [''/etc/gpio-scripts/4'', ''4'', ''1'']) #
     [(0, WAIT (Some (Exited 0))), (0, FREE),
      (1, LOG DEBUG ''pin %d: received event'' [D 17]), (1, RUN_SCRIPT 17 1), (1, MALLOC 27),
      (1, LOG INFO ''pin %d: running script %s'' [D 17, S ''/etc/gpio-scripts/17'']),
      (1, FORK True)] @
     (1, EXECL ''/etc/gpio-scripts/17'' [''/etc/gpio-scripts/17'', ''17'', ''1'']) #
     [(1, WAIT (Some (Exited 0))), (1, FREE)]"
    by code_simp
  note o = wake_in_table_order [OF refl, THEN conjunct2, THEN conjunct2, rule_format, OF d]
  from d o show ?thesis
    by simp
qed


subsection \<open>The switch state over the whole run\<close>

lemma fired_append: "fired i (xs @ ys) = fired i xs @ fired i ys"
  by (induction i xs rule: fired.induct) simp_all

lemma fired_run_script:
  "fired i (map (Pair k) (run_script cfg env p v)) = (if k = i then [v] else [])"
  by (simp add: run_script_def Let_def split: wstatus.splits)

lemma alternates_append:
  "alternates s xs \<Longrightarrow> alternates (last (s # xs)) ys \<Longrightarrow> alternates s (xs @ ys)"
  by (induction xs arbitrary: s) auto

lemma last_append_fired: "last (s # xs @ ys) = last (last (s # xs) # ys)"
  by (cases ys) auto

lemma pin_event_line:
  assumes "i < num_pins cfg" and "k < num_pins cfg" and "arrays_ok cfg st"
    and "edge (pins cfg ! i) = EDGE_SWITCH"
    and "switch_state st ! i = 0 \<or> switch_state st ! i = 1"
    and "pin_event cfg j inp k st = (evs, st')"
  shows "arrays_ok cfg st'"
    and "switch_state st' ! i = 0 \<or> switch_state st' ! i = 1"
    and "alternates (uint (switch_state st ! i)) (fired i (map (Pair k) evs))"
    and "uint (switch_state st' ! i) =
           last (uint (switch_state st ! i) # fired i (map (Pair k) evs))"
    and "fired i (map (Pair k) evs) = [] \<Longrightarrow>
           down_at st' ! i = down_at st ! i \<and> switch_state st' ! i = switch_state st ! i"
  using assms
  by (auto simp add: pin_event_def Let_def arrays_ok_def fired_run_script nth_list_update
      split: if_splits)

lemma pin_loop_line:
  assumes "i < num_pins cfg" and "set ks \<subseteq> {..<num_pins cfg}" and "arrays_ok cfg st"
    and "edge (pins cfg ! i) = EDGE_SWITCH"
    and "switch_state st ! i = 0 \<or> switch_state st ! i = 1"
    and "pin_loop cfg j inps ks st = (tr, st')"
  shows "arrays_ok cfg st'
         \<and> (switch_state st' ! i = 0 \<or> switch_state st' ! i = 1)
         \<and> alternates (uint (switch_state st ! i)) (fired i tr)
         \<and> uint (switch_state st' ! i) = last (uint (switch_state st ! i) # fired i tr)
         \<and> (fired i tr = [] \<longrightarrow>
               down_at st' ! i = down_at st ! i \<and> switch_state st' ! i = switch_state st ! i)"
  using assms(2,3,5,6)
proof (induction ks arbitrary: st tr st')
  case Nil
  then show ?case by simp
next
  case (Cons k ks)
  obtain evs st1 where e: "pin_event cfg j (inps k) k st = (evs, st1)"
    by (cases "pin_event cfg j (inps k) k st")
  obtain tr2 st2 where l: "pin_loop cfg j inps ks st1 = (tr2, st2)"
    by (cases "pin_loop cfg j inps ks st1")
  from Cons.prems e l have tr: "tr = map (Pair k) evs @ tr2" and st': "st' = st2"
    by simp_all
  from Cons.prems have k: "k < num_pins cfg" and ks: "set ks \<subseteq> {..<num_pins cfg}"
    by simp_all
  note pe = pin_event_line [OF assms(1) k Cons.prems(2) assms(4) Cons.prems(3) e]
  note ih = Cons.IH [OF ks pe(1) pe(2) l]
  from ih have a2: "alternates (last (uint (switch_state st ! i) # fired i (map (Pair k) evs)))
                      (fired i tr2)"
    using pe(4) by simp
  have "alternates (uint (switch_state st ! i)) (fired i tr)"
    unfolding tr fired_append by (rule alternates_append [OF pe(3) a2])
  moreover have "uint (switch_state st' ! i) = last (uint (switch_state st ! i) # fired i tr)"
    unfolding tr fired_append st' using ih pe(4) by (simp add: last_append_fired)
  moreover have "fired i tr = [] \<longrightarrow>
      down_at st' ! i = down_at st ! i \<and> switch_state st' ! i = switch_state st ! i"
    unfolding tr fired_append st' using ih pe(5) by simp
  ultimately show ?case
    using ih st' by simp
qed

lemma watch_loop_line:
  assumes "i < num_pins cfg" and "arrays_ok cfg st"
    and "edge (pins cfg ! i) = EDGE_SWITCH"
    and "switch_state st ! i = 0 \<or> switch_state st ! i = 1"
    and "watch_loop cfg j st polls = (tr, r)"
  shows "alternates (uint (switch_state st ! i)) (fired i tr)
         \<and> (\<forall>st'. r = IN_POLL st' \<longrightarrow>
               arrays_ok cfg st'
               \<and> uint (switch_state st' ! i) = last (uint (switch_state st ! i) # fired i tr)
               \<and> (fired i tr = [] \<longrightarrow>
                  down_at st' ! i = down_at st ! i \<and> switch_state st' ! i = switch_state st ! i))"
  using assms(2,4,5)
proof (induction polls arbitrary: st tr r)
  case Nil
  then show ?case by auto
next
  case (Cons a rest)
  show ?case
  proof (cases a)
    case (POLL_ERROR e)
    with Cons.prems show ?thesis by auto
  next
    case (POLL_OK inps)
    obtain tr1 st1 where l: "pin_loop cfg j inps [0..<num_pins cfg] st = (tr1, st1)"
      by (cases "pin_loop cfg j inps [0..<num_pins cfg] st")
    obtain tr2 r2 where w: "watch_loop cfg j st1 rest = (tr2, r2)"
      by (cases "watch_loop cfg j st1 rest")
    from Cons.prems POLL_OK l w have tr: "tr = tr1 @ tr2" and r: "r = r2"
      by simp_all
    have ks: "set [0..<num_pins cfg] \<subseteq> {..<num_pins cfg}"
      by auto
    note pl = pin_loop_line [OF assms(1) ks Cons.prems(1) assms(3) Cons.prems(2) l]
    from pl have ok1: "arrays_ok cfg st1"
      and b1: "switch_state st1 ! i = 0 \<or> switch_state st1 ! i = 1"
      by simp_all
    note ih = Cons.IH [OF ok1 b1 w]
    from ih pl have a2:
      "alternates (last (uint (switch_state st ! i) # fired i tr1)) (fired i tr2)"
      by simp
    from pl have a1: "alternates (uint (switch_state st ! i)) (fired i tr1)"
      by simp
    have "alternates (uint (switch_state st ! i)) (fired i tr)"
      unfolding tr fired_append by (rule alternates_append [OF a1 a2])
    then show ?thesis
      unfolding tr fired_append r using ih pl by (auto simp add: last_append_fired)
  qed
qed

lemma start_state:
  assumes "i < num_pins cfg"
    and "st0 = snd (open_pins cfg opens [0..<num_pins cfg] (init_state cfg j))"
  shows "arrays_ok cfg st0" and "switch_state st0 ! i = 0" and "down_at st0 ! i = None"
  using assms open_pins_keeps [of cfg opens "[0..<num_pins cfg]" "init_state cfg j"]
  by (simp_all add: arrays_ok_def init_state_def)

text \<open>
  C9: for an entry with \<^verbatim>\<open>EDGE_SWITCH\<close> the state is 0 when the loop is entered, the
  values \<^verbatim>\<open>run_script\<close> is called with alternate starting with 1, and whenever the
  process is back in \<^verbatim>\<open>poll\<close> the state is the last of these values (0 when there
  is none), for every list of \<^verbatim>\<open>poll\<close> results.
\<close>

theorem switch_values_alternate:
  assumes "i < num_pins cfg" and "edge (pins cfg ! i) = EDGE_SWITCH"
    and "vs = fired i (fst (snd (watch_pins cfg j opens polls)))"
  shows "switch_state (snd (open_pins cfg opens [0..<num_pins cfg] (init_state cfg j))) ! i = 0
         \<and> alternates 0 vs
         \<and> (vs = [] \<or> hd vs = 1)
         \<and> (case snd (snd (watch_pins cfg j opens polls)) of
               IN_POLL st \<Rightarrow> uint (switch_state st ! i) = last (0 # vs)
             | PERROR_EXIT m e c \<Rightarrow> True)"
proof -
  let ?st0 = "snd (open_pins cfg opens [0..<num_pins cfg] (init_state cfg j))"
  note s = start_state [OF assms(1) refl, of opens j]
  have b: "switch_state ?st0 ! i = 0 \<or> switch_state ?st0 ! i = 1"
    using s(2) by simp
  have w: "watch_loop cfg j ?st0 polls =
           (fst (snd (watch_pins cfg j opens polls)), snd (snd (watch_pins cfg j opens polls)))"
    by (simp add: watch_pins_def case_prod_beta)
  note l = watch_loop_line [OF assms(1) s(1) assms(2) b w]
  from l s(2) have a: "alternates 0 vs"
    unfolding assms(3) by simp
  then have h: "vs = [] \<or> hd vs = 1"
    by (cases vs) simp_all
  from l s(2) have f: "case snd (snd (watch_pins cfg j opens polls)) of
               IN_POLL st \<Rightarrow> uint (switch_state st ! i) = last (0 # vs)
             | PERROR_EXIT m e c \<Rightarrow> True"
    unfolding assms(3) by (simp split: outcome.splits)
  from s(2) a h f show ?thesis
    by simp
qed

theorem switch_values_alternate_witness:
  "fired 1 (fst (snd (watch_pins example_config example_junk opens_ok example_polls))) =
     [1, 0, 1]
   \<and> alternates 0
       (fired 1 (fst (snd (watch_pins example_config example_junk opens_ok example_polls))))"
proof -
  have i: "1 < num_pins example_config"
    and e: "edge (pins example_config ! 1) = EDGE_SWITCH"
    by (simp_all add: example_config_def)
  have v: "fired 1 (fst (snd (watch_pins example_config example_junk opens_ok example_polls))) =
     [1, 0, 1]"
    by code_simp
  show ?thesis
    using switch_values_alternate [where j = example_junk and opens = opens_ok and polls = example_polls,
        OF i e refl] v
    by simp
qed

text \<open>
  C10: as long as an entry with \<^verbatim>\<open>EDGE_SWITCH\<close> has made no call, its element of
  \<^verbatim>\<open>down_at\<close> has never been assigned. An event with \<^verbatim>\<open>'1'\<close> then compares the clock
  with what the memory happens to hold: the call is made exactly when that value is
  more than one second before the clock, so with the same state and the same input
  one content of the memory makes the call and another does not. The runs at the end
  of the example are two whole runs of \<^verbatim>\<open>watch_pins\<close> on the same input.
\<close>

theorem first_comparison_reads_unset_time:
  assumes "i < num_pins cfg" and "edge (pins cfg ! i) = EDGE_SWITCH"
    and "snd (snd (watch_pins cfg j opens polls)) = IN_POLL st"
    and "fired i (fst (snd (watch_pins cfg j opens polls))) = []"
    and "POLLPRI inp" and "value_read inp = READ_OK (CHR ''1'' # cs)"
  shows "down_at st ! i = None
         \<and> filter is_RUN_SCRIPT (fst (pin_event cfg j inp i st)) =
             (if 1 <s tv_sec inp - junk_down_at j i
              then [RUN_SCRIPT (pin (pins cfg ! i)) 1] else [])
         \<and> filter is_RUN_SCRIPT
               (fst (pin_event cfg (j\<lparr> junk_down_at := \<lambda>k. tv_sec inp - 2 \<rparr>) inp i st)) =
             [RUN_SCRIPT (pin (pins cfg ! i)) 1]
         \<and> filter is_RUN_SCRIPT
               (fst (pin_event cfg (j\<lparr> junk_down_at := \<lambda>k. tv_sec inp \<rparr>) inp i st)) = []"
proof -
  let ?st0 = "snd (open_pins cfg opens [0..<num_pins cfg] (init_state cfg j))"
  note s = start_state [OF assms(1) refl, of opens j]
  have b: "switch_state ?st0 ! i = 0 \<or> switch_state ?st0 ! i = 1"
    using s(2) by simp
  have w: "watch_loop cfg j ?st0 polls =
           (fst (snd (watch_pins cfg j opens polls)), IN_POLL st)"
    using assms(3) by (simp add: watch_pins_def case_prod_beta prod_eq_iff)
  note l = watch_loop_line [OF assms(1) s(1) assms(2) b w]
  from l assms(4) s have d: "down_at st ! i = None" and z: "switch_state st ! i = 0"
    by simp_all
  have c: "valbuf (st\<lparr>valbuf := read2 (value_read inp) (valbuf st)\<rparr>) ! 0 = CHR ''1''"
    using assms(6) by simp
  have p: "filter is_RUN_SCRIPT (fst (pin_event cfg j' inp i st)) =
             (if 1 <s tv_sec inp - junk_down_at j' i
              then [RUN_SCRIPT (pin (pins cfg ! i)) 1] else [])" for j'
    using assms(2,5) d z c unfolding pin_event_def Let_def by simp
  have two: "tv_sec inp - (tv_sec inp - 2) = 2"
    by simp
  show ?thesis
    using d p [of j] p [of "j\<lparr> junk_down_at := \<lambda>k. tv_sec inp - 2 \<rparr>"]
      p [of "j\<lparr> junk_down_at := \<lambda>k. tv_sec inp \<rparr>"]
    by (simp add: two word_sless_alt)
qed

theorem first_comparison_reads_unset_time_witness:
  "down_at example_start ! 1 = None
   \<and> filter is_RUN_SCRIPT
       (fst (pin_event example_config (junk_at 0)
          (line_in True (CHR ''1'') 12 (Exited 0)) 1 example_start)) = [RUN_SCRIPT 17 1]
   \<and> filter is_RUN_SCRIPT
       (fst (pin_event example_config (junk_at 12)
          (line_in True (CHR ''1'') 12 (Exited 0)) 1 example_start)) = []
   \<and> fired 1 (fst (snd (watch_pins example_config (junk_at 0) opens_ok
         [POLL_OK (all_lines (line_in True (CHR ''1'') 12 (Exited 0)))]))) = [1]
   \<and> fired 1 (fst (snd (watch_pins example_config (junk_at 12) opens_ok
         [POLL_OK (all_lines (line_in True (CHR ''1'') 12 (Exited 0)))]))) = []"
proof -
  have whole: "fired 1 (fst (snd (watch_pins example_config (junk_at 0) opens_ok
         [POLL_OK (all_lines (line_in True (CHR ''1'') 12 (Exited 0)))]))) = [1]
   \<and> fired 1 (fst (snd (watch_pins example_config (junk_at 12) opens_ok
         [POLL_OK (all_lines (line_in True (CHR ''1'') 12 (Exited 0)))]))) = []"
    by code_simp
  have i: "1 < num_pins example_config"
    and e: "edge (pins example_config ! 1) = EDGE_SWITCH"
    by (simp_all add: example_config_def)
  have s: "snd (snd (watch_pins example_config (junk_at w) opens_ok [])) = IN_POLL example_start"
    for w
    by (simp add: watch_pins_def example_config_def junk_at_def opens_ok_def init_state_def
        example_start_def read2_def upt_rec)
  have f: "fired 1 (fst (snd (watch_pins example_config (junk_at w) opens_ok []))) = []" for w
    by (simp add: watch_pins_def case_prod_beta)
  have r: "POLLPRI (line_in True (CHR ''1'') 12 (Exited 0))"
    and v: "value_read (line_in True (CHR ''1'') 12 (Exited 0)) = READ_OK [CHR ''1'', CHR 0x0A]"
    by (simp_all add: line_in_def)
  show ?thesis
    using first_comparison_reads_unset_time [OF i e s f r v, of 0]
      first_comparison_reads_unset_time [OF i e s f r v, of 12] whole
    by (simp add: junk_at_def line_in_def example_config_def word_sless_alt)
qed



end
